theory Spec2Isabelle
  imports Complex_Main "HOL-Library.AList" "HOL-Library.Word"
begin

section \<open>The camera streaming backend (backend-fastapi/main.py)\<close>

text \<open>
  The module keeps three dictionaries behind one lock: \<open>active_sockets\<close> (connection to
  quality), \<open>frames_needed\<close> (a \<open>Counter\<close>: quality to demand count) and \<open>frames\<close>
  (quality to the last encoded image). Three kinds of code touch them: the connection
  handler \<open>websocket_endpoint\<close>, the broadcaster \<open>update_websockets_for_quality\<close> and the
  capture loop \<open>image_updater\<close>. Every block that runs under \<open>with lock\<close> is one function
  on the state below; what happens outside the lock (transport calls, sleeping, starting
  threads) is returned as a list of effects.

  A Python dictionary keeps its keys in insertion order, assigning to an existing key keeps
  its place, and \<open>del\<close> removes the key: that is an association list with
  \<open>AList.update\<close> and \<open>AList.delete\<close>. A WebSocket object is a key by identity; the
  type \<open>'ws\<close> stands for these identities.
\<close>

subsection \<open>Shared state\<close>

type_synonym bytes = "8 word list"

record 'ws state =
  active_sockets :: "('ws \<times> int) list"
  frames_needed :: "(int \<times> int) list"
  frames :: "(int \<times> bytes) list"

definition init_state :: "'ws state" where
  "init_state = \<lparr>active_sockets = [], frames_needed = [], frames = []\<rparr>"

text \<open>Reading a \<open>Counter\<close> at a key it does not hold gives 0 and stores nothing.\<close>

definition counter_get :: "(int \<times> int) list \<Rightarrow> int \<Rightarrow> int" where
  "counter_get c q = (case map_of c q of None \<Rightarrow> 0 | Some n \<Rightarrow> n)"

text \<open>\<open>frames.get(quality, b'')\<close>.\<close>

definition frames_get :: "(int \<times> bytes) list \<Rightarrow> int \<Rightarrow> bytes" where
  "frames_get fs q = (case map_of fs q of None \<Rightarrow> [] | Some d \<Rightarrow> d)"

text \<open>
  The exceptions the module names, each standing for its class and the subclasses of it
  (an \<open>except\<close> clause catches those too), \<open>IndexError\<close> for a list index out of range,
  and \<open>OtherError\<close> for any exception that is an instance of none of the classes the
  \<open>except\<close> clauses of the module list, such as \<open>BrokenPipeError\<close>.
\<close>

datatype exn = WebSocketDisconnect | RuntimeError | ConnectionResetError | IndexError | OtherError

text \<open>What the server does to a connection's transport.\<close>

datatype 'ws action = Close 'ws int string | Accept 'ws | SendBytes 'ws bytes

subsection \<open>The connection handler\<close>

text \<open>
  Lines 120 to 122, under the lock:
  \<^verbatim>\<open>active_sockets[websocket] = quality; frames_needed[quality] += 1\<close>
\<close>

definition register_socket :: "'ws \<Rightarrow> int \<Rightarrow> 'ws state \<Rightarrow> 'ws state" where
  "register_socket websocket quality s =
     s\<lparr>active_sockets := AList.update websocket quality (active_sockets s),
       frames_needed :=
         AList.update quality (counter_get (frames_needed s) quality + 1) (frames_needed s)\<rparr>"

text \<open>
  Lines 133 to 136 (and, with \<open>sockets[i]\<close> for the connection, lines 55 to 58):
  \<^verbatim>\<open>
  if websocket in active_sockets:
      q = active_sockets[websocket]
      frames_needed[q] = max(frames_needed[q] - 1, 0)
      del active_sockets[websocket]
  \<close>
  The lookup and the \<open>del\<close> stand behind the membership test, so neither can raise
  \<open>KeyError\<close>: the \<open>None\<close> branch is the test failing.
\<close>

definition remove_socket :: "'ws \<Rightarrow> 'ws state \<Rightarrow> 'ws state" where
  "remove_socket websocket s =
     (case map_of (active_sockets s) websocket of
        None \<Rightarrow> s
      | Some q \<Rightarrow>
          s\<lparr>frames_needed :=
              AList.update q (max (counter_get (frames_needed s) q - 1) 0) (frames_needed s),
            active_sockets := AList.delete websocket (active_sockets s)\<rparr>)"

text \<open>
  The handler up to the point where it starts to wait on the connection (lines 113 to
  122). The result says what was done to the transport, whether the handler goes on to serve
  the connection, and the state it leaves.
\<close>

definition websocket_endpoint_open ::
  "'ws \<Rightarrow> int \<Rightarrow> 'ws state \<Rightarrow> 'ws action list \<times> bool \<times> 'ws state" where
  "websocket_endpoint_open websocket quality s =
     (if quality < 30 \<or> quality > 95
      then ([Close websocket 1003 ''Invalid quality parameter''], False, s)
      else ([Accept websocket], True, register_socket websocket quality s))"

text \<open>
  The handler then loops on \<open>receive_text\<close> until that call raises. \<open>WebSocketDisconnect\<close>
  is swallowed, any other exception leaves the handler; the \<open>finally\<close> block runs in both
  cases. The result is the exception that leaves the handler, if any, and the state.
\<close>

definition websocket_endpoint_finally :: "'ws \<Rightarrow> exn \<Rightarrow> 'ws state \<Rightarrow> exn option \<times> 'ws state" where
  "websocket_endpoint_finally websocket raised s =
     (if raised = WebSocketDisconnect then None else Some raised, remove_socket websocket s)"

subsection \<open>The broadcaster\<close>

text \<open>
  \<open>safe_send\<close> takes what \<open>send_bytes\<close> did: \<open>None\<close> when it returned, the exception when
  it raised. The three listed classes become \<open>False\<close>; anything else leaves \<open>safe_send\<close>.
\<close>

definition safe_send :: "exn option \<Rightarrow> exn + bool" where
  "safe_send sent =
     (case sent of
        None \<Rightarrow> Inr True
      | Some e \<Rightarrow>
          if e = WebSocketDisconnect \<or> e = RuntimeError \<or> e = ConnectionResetError
          then Inr False else Inl e)"

text \<open>
  \<open>asyncio.gather\<close> without \<open>return_exceptions\<close>: the list of results in the order of the
  tasks, or the exception of a task that raised.
\<close>

fun gather :: "(exn + bool) list \<Rightarrow> exn + bool list" where
  "gather [] = Inr []"
| "gather (Inl e # rs) = Inl e"
| "gather (Inr b # rs) = (case gather rs of Inl e \<Rightarrow> Inl e | Inr bs \<Rightarrow> Inr (b # bs))"

text \<open>
  Lines 54 to 58, the loop over \<open>enumerate(results)\<close>. \<open>sockets[i]\<close> is evaluated only
  when \<open>success\<close> is false, and raises \<open>IndexError\<close> past the end of the list; what the
  loop changed before stays changed.
\<close>

fun remove_failed :: "'ws list \<Rightarrow> (nat \<times> bool) list \<Rightarrow> 'ws state \<Rightarrow> exn option \<times> 'ws state" where
  "remove_failed sockets [] s = (None, s)"
| "remove_failed sockets ((i, success) # rest) s =
     (if success then remove_failed sockets rest s
      else if i < length sockets then remove_failed sockets rest (remove_socket (sockets ! i) s)
      else (Some IndexError, s))"

text \<open>
  Lines 42 to 45, under the lock: the frame and the connections of this quality, in the
  order of the dictionary.
\<close>

definition snapshot :: "int \<Rightarrow> 'ws state \<Rightarrow> bytes \<times> 'ws list" where
  "snapshot quality s =
     (frames_get (frames s) quality,
      concat (map (\<lambda>(ws, q). if q = quality then [ws] else []) (active_sockets s)))"

text \<open>
  \<open>send_to_all\<close> runs later, on the event loop, so the state it meets may differ from the
  one of the snapshot. \<open>transport ws\<close> is what \<open>send_bytes\<close> does on connection \<open>ws\<close>.
  Every task is started, so every connection of the snapshot is sent the frame; when a
  task raises, \<open>gather\<close> raises in \<open>send_to_all\<close> and the removal loop is not reached.
\<close>

definition send_to_all ::
  "'ws list \<Rightarrow> bytes \<Rightarrow> ('ws \<Rightarrow> exn option) \<Rightarrow> 'ws state \<Rightarrow> 'ws action list \<times> exn option \<times> 'ws state" where
  "send_to_all sockets frame_data transport s =
     (map (\<lambda>ws. SendBytes ws frame_data) sockets,
      case gather (map (\<lambda>ws. safe_send (transport ws)) sockets) of
        Inl e \<Rightarrow> (Some e, s)
      | Inr results \<Rightarrow> remove_failed sockets (enumerate 0 results) s)"

text \<open>The whole function when nothing else runs between the snapshot and the removal.\<close>

definition update_websockets_for_quality ::
  "int \<Rightarrow> ('ws \<Rightarrow> exn option) \<Rightarrow> 'ws state \<Rightarrow> 'ws action list \<times> exn option \<times> 'ws state" where
  "update_websockets_for_quality quality transport s =
     (case snapshot quality s of (frame_data, sockets) \<Rightarrow> send_to_all sockets frame_data transport s)"

subsection \<open>The capture loop\<close>

text \<open>
  The camera and the encoder are outside the module. A cycle is given what it observes of
  them: the result of \<open>camera.read()\<close> (\<open>None\<close> when \<open>ret\<close> is false), and how long the
  read and the encoding took. \<open>imencode frame quality\<close> stands for the bytes of
  \<open>cv2.imencode(".jpg", frame, [IMWRITE_JPEG_QUALITY, quality])\<close>.

  Times are real numbers: the rounding of Python's floats is not modelled.
  \<open>time.perf_counter()\<close> reads \<open>now\<close>, and \<open>time.sleep(d)\<close> moves it forward by \<open>d\<close>.
\<close>

record 'f observation =
  cam :: "'f option"
  read_time :: real
  encode_time :: real

record updater =
  last_time :: real
  now :: real

datatype effect = Encode int | StartThread int | Sleep real

definition interval :: real where
  "interval = 1 / 34"

text \<open>Line 78: the qualities whose count is positive, in the order of the counter's keys.\<close>

definition required_qualities :: "'ws state \<Rightarrow> int list" where
  "required_qualities s =
     concat (map (\<lambda>(q, count). if count > 0 then [q] else []) (frames_needed s))"

text \<open>Lines 81 to 96: encode, store under the lock, start the broadcast thread.\<close>

fun process_qualities ::
  "('f \<Rightarrow> int \<Rightarrow> bytes) \<Rightarrow> 'f \<Rightarrow> int list \<Rightarrow> 'ws state \<Rightarrow> 'ws state \<times> effect list" where
  "process_qualities imencode frame [] s = (s, [])"
| "process_qualities imencode frame (quality # rest) s =
     (case process_qualities imencode frame rest
             (s\<lparr>frames := AList.update quality (imencode frame quality) (frames s)\<rparr>) of
        (s', effects) \<Rightarrow> (s', Encode quality # StartThread quality # effects))"

text \<open>
  Lines 105 and 106: \<open>while time.perf_counter() < next_time: time.sleep(0.001)\<close>.
  The result is the number of sleeps and the time at which the loop is left.
\<close>

function wait_until :: "real \<Rightarrow> real \<Rightarrow> nat \<times> real" where
  "wait_until next_time t =
     (if t < next_time
      then (case wait_until next_time (t + 0.001) of (n, t') \<Rightarrow> (Suc n, t'))
      else (0, t))"
  by pat_completeness auto
termination
proof (relation "measure (\<lambda>(next_time, t). nat \<lceil>(next_time - t) * 1000\<rceil>)")
  show "wf (measure (\<lambda>(next_time, t). nat \<lceil>(next_time - t) * 1000\<rceil>))"
    by simp
next
  fix next_time t :: real
  assume less: "t < next_time"
  have step: "(next_time - (t + 0.001)) * 1000 = (next_time - t) * 1000 - 1"
    by (simp add: algebra_simps)
  have pos: "0 < \<lceil>(next_time - t) * 1000\<rceil>"
    using less by simp
  have "\<lceil>(next_time - (t + 0.001)) * 1000\<rceil> = \<lceil>(next_time - t) * 1000\<rceil> - 1"
    unfolding step by simp
  with pos show "((next_time, t + 0.001), (next_time, t))
      \<in> measure (\<lambda>(next_time, t). nat \<lceil>(next_time - t) * 1000\<rceil>)"
    by simp
qed

declare wait_until.simps [simp del]

text \<open>Lines 99 to 107: the pacing at the end of a cycle that began at \<open>start_time\<close>.\<close>

definition pace :: "real \<Rightarrow> updater \<Rightarrow> updater \<times> effect list" where
  "pace start_time u =
     (let elapsed = now u - start_time;
          sleep_time = max (interval - elapsed) 0;
          woken = now u + sleep_time;
          next_time = last_time u + interval
      in case wait_until next_time woken of
           (n, t) \<Rightarrow> (\<lparr>last_time = next_time, now = t\<rparr>, Sleep sleep_time # replicate n (Sleep 0.001)))"


text \<open>
  One pass through the body of \<open>while True\<close> (lines 69 to 107). When the read fails the
  body ends at \<open>continue\<close> on line 74.
\<close>

definition image_updater_cycle ::
  "('f \<Rightarrow> int \<Rightarrow> bytes) \<Rightarrow> 'f observation \<Rightarrow> updater \<Rightarrow> 'ws state
     \<Rightarrow> updater \<times> 'ws state \<times> effect list" where
  "image_updater_cycle imencode ob u s =
     (let start_time = now u;
          u1 = u\<lparr>now := now u + read_time ob\<rparr>
      in case cam ob of
           None \<Rightarrow> (u1, s, [])
         | Some frame \<Rightarrow>
             (case process_qualities imencode frame (required_qualities s) s of
                (s', started) \<Rightarrow>
                  (case pace start_time (u1\<lparr>now := now u1 + encode_time ob\<rparr>) of
                     (u', sleeps) \<Rightarrow> (u', s', started @ sleeps))))"

text \<open>
  The loop never leaves \<open>while True\<close>: after as many observations as the list holds it
  has run that many cycles and is about to run the next.
\<close>

fun image_updater ::
  "('f \<Rightarrow> int \<Rightarrow> bytes) \<Rightarrow> 'f observation list \<Rightarrow> updater \<Rightarrow> 'ws state
     \<Rightarrow> updater \<times> 'ws state \<times> effect list" where
  "image_updater imencode [] u s = (u, s, [])"
| "image_updater imencode (ob # obs) u s =
     (case image_updater_cycle imencode ob u s of
        (u', s', effects) \<Rightarrow>
          (case image_updater imencode obs u' s' of
             (u'', s'', effects') \<Rightarrow> (u'', s'', effects @ effects')))"

subsection \<open>Runs of the whole service\<close>

text \<open>
  The steps that change the shared state, each atomic under the lock: a handler opening
  a connection, a handler's \<open>finally\<close> block, the removal loop of a broadcast with the
  (possibly stale) snapshot it took, and the capture loop storing a frame.
\<close>

datatype 'ws step =
    Open 'ws int
  | Finally 'ws exn
  | SendToAll "'ws list" bytes "'ws \<Rightarrow> exn option"
  | Store int bytes

fun apply_step :: "'ws step \<Rightarrow> 'ws state \<Rightarrow> 'ws state" where
  "apply_step (Open websocket quality) s = snd (snd (websocket_endpoint_open websocket quality s))"
| "apply_step (Finally websocket raised) s = snd (websocket_endpoint_finally websocket raised s)"
| "apply_step (SendToAll sockets frame_data transport) s =
     snd (snd (send_to_all sockets frame_data transport s))"
| "apply_step (Store quality compressed) s =
     s\<lparr>frames := AList.update quality compressed (frames s)\<rparr>"

fun run :: "'ws step list \<Rightarrow> 'ws state \<Rightarrow> 'ws state" where
  "run [] s = s"
| "run (st # sts) s = run sts (apply_step st s)"

text \<open>
  The server calls \<open>websocket_endpoint\<close> once for each connection and with a WebSocket
  object of its own, and nothing but line 121 of that call puts the object into
  \<open>active_sockets\<close>. So when a handler opens, its connection is not in the dictionary.
  \<open>one_open_each\<close> says that a run keeps to this.
\<close>

fun one_open_each :: "'ws step list \<Rightarrow> 'ws state \<Rightarrow> bool" where
  "one_open_each [] s = True"
| "one_open_each (Open websocket quality # sts) s =
     (map_of (active_sockets s) websocket = None
      \<and> one_open_each sts (apply_step (Open websocket quality) s))"
| "one_open_each (st # sts) s = one_open_each sts (apply_step st s)"

text \<open>The number of connections that \<open>active_sockets\<close> maps to a quality.\<close>

definition subscribers :: "'ws state \<Rightarrow> int \<Rightarrow> nat" where
  "subscribers s quality = length (snd (snapshot quality s))"

subsection \<open>Notions used by the properties\<close>

text \<open>
  The status codes of a close frame are those of the WebSocket protocol (RFC 6455, section
  7.4.1): 1003 says that the endpoint received data of a type it cannot accept, 1008 that
  it received a message that violates its policy. The names are those of the server
  library's \<open>status\<close> module.
\<close>

definition WS_1003_UNSUPPORTED_DATA :: int where
  "WS_1003_UNSUPPORTED_DATA = 1003"

definition WS_1008_POLICY_VIOLATION :: int where
  "WS_1008_POLICY_VIOLATION = 1008"

text \<open>The close codes that a list of transport actions sends.\<close>

definition close_codes :: "'ws action list \<Rightarrow> int list" where
  "close_codes acts =
     concat (map (\<lambda>a. case a of Close ws code reason \<Rightarrow> [code] | _ \<Rightarrow> []) acts)"


text \<open>The connections that a list of transport actions closes.\<close>

definition closed_connections :: "'ws action list \<Rightarrow> 'ws list" where
  "closed_connections acts =
     concat (map (\<lambda>a. case a of Close ws code reason \<Rightarrow> [ws] | _ \<Rightarrow> []) acts)"

text \<open>The steps by which the capture loop stores a frame.\<close>

definition is_store :: "'ws step \<Rightarrow> bool" where
  "is_store st = (case st of Store quality compressed \<Rightarrow> True | _ \<Rightarrow> False)"

text \<open>Every demand count is at least zero.\<close>

definition counts_nonneg :: "'ws state \<Rightarrow> bool" where
  "counts_nonneg s = (\<forall>q. 0 \<le> counter_get (frames_needed s) q)"

text \<open>
  The keys of \<open>active_sockets\<close> are distinct, as those of a dictionary are, and every
  demand count is the number of connections of that quality.
\<close>

definition counts_exact :: "'ws state \<Rightarrow> bool" where
  "counts_exact s =
     (distinct (map fst (active_sockets s))
      \<and> (\<forall>q. counter_get (frames_needed s) q = int (subscribers s q)))"

section \<open>Auxiliary facts\<close>

subsection \<open>The counter and the removal of a connection\<close>

lemma counter_get_update:
  "counter_get (AList.update k v c) q = (if q = k then v else counter_get c q)"
  by (simp add: counter_get_def update_conv')

lemma active_sockets_remove_socket:
  "map_of (active_sockets (remove_socket w s)) = (map_of (active_sockets s))(w := None)"
  by (auto simp: remove_socket_def delete_conv' fun_eq_iff split: option.splits)

lemma remove_socket_absent:
  "map_of (active_sockets s) w = None \<Longrightarrow> remove_socket w s = s"
  by (simp add: remove_socket_def)

lemma remove_socket_idem: "remove_socket w (remove_socket w s) = remove_socket w s"
  by (rule remove_socket_absent) (simp add: active_sockets_remove_socket)

lemma frames_remove_socket: "frames (remove_socket w s) = frames s"
  by (simp add: remove_socket_def split: option.splits)

lemma remove_socket_registered:
  "map_of (active_sockets s) c = Some q \<Longrightarrow>
   counter_get (frames_needed (remove_socket c s)) q' =
     (if q' = q then max (counter_get (frames_needed s) q - 1) 0 else counter_get (frames_needed s) q')"
  by (simp add: remove_socket_def counter_get_update)


lemma foldl_remove_absent:
  "\<forall>w\<in>set ws. map_of (active_sockets s) w = None \<Longrightarrow> foldl (\<lambda>s w. remove_socket w s) s ws = s"
  by (induction ws arbitrary: s) (auto simp: remove_socket_absent)

lemma active_sockets_foldl_remove:
  "map_of (active_sockets (foldl (\<lambda>s w. remove_socket w s) s ws)) w =
     (if w \<in> set ws then None else map_of (active_sockets s) w)"
  by (induction ws arbitrary: s) (auto simp: active_sockets_remove_socket)

lemma frames_foldl_remove: "frames (foldl (\<lambda>s w. remove_socket w s) s ws) = frames s"
  by (induction ws arbitrary: s) (auto simp: frames_remove_socket)

subsection \<open>The broadcast\<close>

lemma gather_length: "gather rs = Inr bs \<Longrightarrow> length bs = length rs"
  by (induction rs arbitrary: bs rule: gather.induct) (auto split: sum.splits)

lemma remove_failed_enumerate:
  "length results = length sockets \<Longrightarrow>
   remove_failed (pre @ sockets) (enumerate (length pre) results) s =
     (None, foldl (\<lambda>s w. remove_socket w s) s
              (map fst (filter (\<lambda>(w, ok). \<not> ok) (zip sockets results))))"
proof (induction results sockets arbitrary: pre s rule: list_induct2)
  case Nil
  then show ?case by simp
next
  case (Cons ok results w sockets)
  have "remove_failed ((pre @ [w]) @ sockets) (enumerate (length (pre @ [w])) results) s' =
     (None, foldl (\<lambda>s w. remove_socket w s) s'
              (map fst (filter (\<lambda>(w, ok). \<not> ok) (zip sockets results))))" for s'
    by (rule Cons.IH)
  then show ?case by simp
qed

lemma gather_handled:
  "\<forall>w\<in>set sockets. \<exists>b. safe_send (transport w) = Inr b \<Longrightarrow>
   gather (map (\<lambda>w. safe_send (transport w)) sockets) =
     Inr (map (\<lambda>w. safe_send (transport w) = Inr True) sockets)"
  by (induction sockets) auto

lemma filter_zip_results:
  "map fst (filter (\<lambda>(w, ok). \<not> ok) (zip sockets (map (\<lambda>w. P w) sockets))) = filter (\<lambda>w. \<not> P w) sockets"
  by (induction sockets) auto

lemma send_to_all_handled:
  assumes "\<forall>w\<in>set sockets. \<exists>b. safe_send (transport w) = Inr b"
  shows "send_to_all sockets frame_data transport s =
     (map (\<lambda>ws. SendBytes ws frame_data) sockets, None,
      foldl (\<lambda>s w. remove_socket w s) s (filter (\<lambda>w. safe_send (transport w) = Inr False) sockets))"
proof -
  have eq: "filter (\<lambda>w. safe_send (transport w) \<noteq> Inr True) sockets
      = filter (\<lambda>w. safe_send (transport w) = Inr False) sockets"
    using assms by (intro filter_cong) auto
  show ?thesis
    using remove_failed_enumerate [of "map (\<lambda>w. safe_send (transport w) = Inr True) sockets" sockets "[]" s]
    by (simp add: send_to_all_def gather_handled [OF assms] filter_zip_results eq)
qed

lemma send_to_all_state:
  "\<exists>ws. snd (snd (send_to_all sockets frame_data transport s)) = foldl (\<lambda>s w. remove_socket w s) s ws"
proof (cases "gather (map (\<lambda>w. safe_send (transport w)) sockets)")
  case (Inl e)
  then have "snd (snd (send_to_all sockets frame_data transport s)) = foldl (\<lambda>s w. remove_socket w s) s []"
    by (simp add: send_to_all_def)
  then show ?thesis by blast
next
  case (Inr results)
  then have "length results = length sockets"
    by (auto dest: gather_length)
  from remove_failed_enumerate [OF this, of "[]" s] Inr show ?thesis
    by (auto simp: send_to_all_def)
qed

lemma closed_connections_sends: "closed_connections (map (\<lambda>ws. SendBytes ws d) sockets) = []"
  by (induction sockets) (auto simp: closed_connections_def)

lemma fst_send_to_all: "fst (send_to_all sockets frame_data transport s) = map (\<lambda>ws. SendBytes ws frame_data) sockets"
  by (simp add: send_to_all_def)

lemma set_snapshot: "set (snd (snapshot quality s)) = {ws. (ws, quality) \<in> set (active_sockets s)}"
  by (auto simp: snapshot_def split: if_splits)

subsection \<open>The capture loop\<close>

lemma process_qualities_frames:
  "map_of (frames (fst (process_qualities imencode frame qs s))) q =
     (if q \<in> set qs then Some (imencode frame q) else map_of (frames s) q)"
  by (induction qs arbitrary: s) (simp_all add: update_conv' case_prod_beta)

lemma process_qualities_effects:
  "snd (process_qualities imencode frame qs s) = concat (map (\<lambda>q. [Encode q, StartThread q]) qs)"
  by (induction qs arbitrary: s) (simp_all add: case_prod_beta)

lemma required_qualities_positive:
  "0 < counter_get (frames_needed s) q \<Longrightarrow> q \<in> set (required_qualities s)"
proof -
  assume pos: "0 < counter_get (frames_needed s) q"
  then obtain n where n: "map_of (frames_needed s) q = Some n" "0 < n"
    by (auto simp: counter_get_def split: option.splits)
  then have "(q, n) \<in> set (frames_needed s)"
    by (auto dest: map_of_SomeD)
  with n(2) show ?thesis
    by (force simp: required_qualities_def)
qed












subsection \<open>Invariants of a run\<close>

lemma frames_apply_step:
  "frames (apply_step st s) =
     (case st of Store quality compressed \<Rightarrow> AList.update quality compressed (frames s) | _ \<Rightarrow> frames s)"
proof (cases st)
  case (Open w q)
  then show ?thesis
    by (simp add: websocket_endpoint_open_def register_socket_def)
next
  case (Finally w e)
  then show ?thesis
    by (simp add: websocket_endpoint_finally_def frames_remove_socket)
next
  case (SendToAll sockets d transport)
  obtain ws where "snd (snd (send_to_all sockets d transport s)) = foldl (\<lambda>s w. remove_socket w s) s ws"
    using send_to_all_state by blast
  with SendToAll show ?thesis
    by (simp add: frames_foldl_remove)
next
  case (Store q d)
  then show ?thesis
    by simp
qed

lemma frames_run_stores:
  "filter is_store sts = map (\<lambda>q. Store q (enc q)) qs \<Longrightarrow>
   map_of (frames (run sts s)) q = (if q \<in> set qs then Some (enc q) else map_of (frames s) q)"
proof (induction sts arbitrary: s qs)
  case Nil
  then show ?case by simp
next
  case (Cons st sts)
  show ?case
  proof (cases "is_store st")
    case True
    then obtain q0 d where st: "st = Store q0 d"
      by (cases st) (auto simp: is_store_def)
    with Cons.prems True obtain qs' where qs: "qs = q0 # qs'" "d = enc q0"
      and rest: "filter is_store sts = map (\<lambda>q. Store q (enc q)) qs'"
      by (cases qs) auto
    from Cons.IH [OF rest] st qs show ?thesis
      by (simp add: update_conv')
  next
    case False
    with Cons.prems have rest: "filter is_store sts = map (\<lambda>q. Store q (enc q)) qs"
      by simp
    from False have "frames (apply_step st s) = frames s"
      by (cases st) (simp_all add: frames_apply_step is_store_def del: apply_step.simps)
    with Cons.IH [OF rest] show ?thesis
      by simp
  qed
qed

lemma counts_nonneg_remove_socket: "counts_nonneg s \<Longrightarrow> counts_nonneg (remove_socket w s)"
  by (auto simp: counts_nonneg_def remove_socket_def counter_get_update split: option.splits)

lemma counts_nonneg_foldl_remove:
  "counts_nonneg s \<Longrightarrow> counts_nonneg (foldl (\<lambda>s w. remove_socket w s) s ws)"
  by (induction ws arbitrary: s) (auto simp: counts_nonneg_remove_socket)

lemma counts_nonneg_apply_step: "counts_nonneg s \<Longrightarrow> counts_nonneg (apply_step st s)"
proof (cases st)
  case (Open w q)
  assume "counts_nonneg s"
  with Open show ?thesis
    by (auto simp: counts_nonneg_def websocket_endpoint_open_def register_socket_def counter_get_update)
next
  case (Finally w e)
  assume "counts_nonneg s"
  with Finally show ?thesis
    by (simp add: websocket_endpoint_finally_def counts_nonneg_remove_socket)
next
  case (SendToAll sockets d transport)
  assume nonneg: "counts_nonneg s"
  obtain ws where "snd (snd (send_to_all sockets d transport s)) = foldl (\<lambda>s w. remove_socket w s) s ws"
    using send_to_all_state by blast
  with SendToAll nonneg show ?thesis
    by (simp add: counts_nonneg_foldl_remove)
next
  case (Store q d)
  assume "counts_nonneg s"
  with Store show ?thesis
    by (simp add: counts_nonneg_def)
qed

lemma counts_nonneg_run: "counts_nonneg s \<Longrightarrow> counts_nonneg (run sts s)"
  by (induction sts arbitrary: s) (auto simp: counts_nonneg_apply_step)

lemma run_append: "run (sts @ sts') s = run sts' (run sts s)"
  by (induction sts arbitrary: s) auto

lemma register_then_remove:
  "30 \<le> quality \<Longrightarrow> quality \<le> 95 \<Longrightarrow> 0 \<le> counter_get (frames_needed s) quality \<Longrightarrow>
   counter_get (frames_needed (run [Open c quality, Finally c raised] s)) quality =
     counter_get (frames_needed s) quality"
proof -
  assume valid: "30 \<le> quality" "quality \<le> 95" and nonneg: "0 \<le> counter_get (frames_needed s) quality"
  have "map_of (active_sockets (register_socket c quality s)) c = Some quality"
    by (simp add: register_socket_def update_conv')
  then have "counter_get (frames_needed (remove_socket c (register_socket c quality s))) quality =
      max (counter_get (frames_needed (register_socket c quality s)) quality - 1) 0"
    by (simp add: remove_socket_registered)
  also have "\<dots> = counter_get (frames_needed s) quality"
    using nonneg by (simp add: register_socket_def counter_get_update)
  finally show ?thesis
    using valid by (simp add: websocket_endpoint_open_def websocket_endpoint_finally_def)
qed

lemma register_then_remove_reachable:
  assumes "30 \<le> quality" "quality \<le> 95"
  shows "counter_get (frames_needed (run (sts @ [Open c quality, Finally c raised]) init_state)) quality =
     counter_get (frames_needed (run sts init_state)) quality"
proof -
  have "counts_nonneg (init_state :: 'a state)"
    by (simp add: counts_nonneg_def init_state_def counter_get_def)
  then have "counts_nonneg (run sts (init_state :: 'a state))"
    by (rule counts_nonneg_run)
  then have "0 \<le> counter_get (frames_needed (run sts (init_state :: 'a state))) quality"
    by (simp add: counts_nonneg_def)
  with assms show ?thesis
    unfolding run_append by (rule register_then_remove)
qed

lemma subscribers_filter:
  "subscribers s q = length (filter (\<lambda>p. snd p = q) (active_sockets s))"
proof -
  have "length (concat (map (\<lambda>(ws, q'). if q' = q then [ws] else []) al)) =
      length (filter (\<lambda>p. snd p = q) al)" for al :: "('a \<times> int) list"
    by (induction al) auto
  then show ?thesis
    by (simp add: subscribers_def snapshot_def)
qed

lemma update_fresh: "map_of al k = None \<Longrightarrow> AList.update k v al = al @ [(k, v)]"
  by (induction al) (auto split: if_splits)

lemma filter_delete_present:
  "distinct (map fst al) \<Longrightarrow> map_of al k = Some v \<Longrightarrow>
   length (filter P (AList.delete k al)) + (if P (k, v) then 1 else 0) = length (filter P al)"
proof (induction al)
  case Nil
  then show ?case by simp
next
  case (Cons p al)
  show ?case
  proof (cases "fst p = k")
    case True
    with Cons.prems have "p = (k, v)" and "k \<notin> fst ` set al"
      by (auto simp: prod_eq_iff)
    then show ?thesis
      by (simp add: delete_id)
  next
    case False
    with Cons show ?thesis
      by (auto split: if_splits)
  qed
qed

lemma counts_exact_register:
  assumes "counts_exact s" and "map_of (active_sockets s) w = None"
  shows "counts_exact (register_socket w q s)"
proof -
  have "distinct (map fst (active_sockets (register_socket w q s)))"
    using assms(1) by (simp add: counts_exact_def register_socket_def distinct_update)
  moreover have "counter_get (frames_needed (register_socket w q s)) q' =
      int (subscribers (register_socket w q s) q')" for q'
    using assms by (simp add: counts_exact_def subscribers_filter register_socket_def
        counter_get_update update_fresh)
  ultimately show ?thesis
    by (simp add: counts_exact_def)
qed

lemma counts_exact_remove_socket:
  assumes "counts_exact s"
  shows "counts_exact (remove_socket w s)"
proof (cases "map_of (active_sockets s) w")
  case None
  with assms show ?thesis
    by (simp add: remove_socket_absent)
next
  case (Some q)
  have dist: "distinct (map fst (active_sockets s))"
    using assms by (simp add: counts_exact_def)
  have len: "length (filter (\<lambda>p. snd p = q') (AList.delete w (active_sockets s)))
      + (if q' = q then 1 else 0) = length (filter (\<lambda>p. snd p = q') (active_sockets s))" for q'
    using filter_delete_present [OF dist Some, of "\<lambda>p. snd p = q'"] by (auto split: if_splits)
  have "counter_get (frames_needed (remove_socket w s)) q' = int (subscribers (remove_socket w s) q')" for q'
    using assms len [of q'] Some
    by (auto simp: counts_exact_def subscribers_filter remove_socket_def counter_get_update)
  moreover have "distinct (map fst (active_sockets (remove_socket w s)))"
    using dist Some by (simp add: remove_socket_def distinct_delete)
  ultimately show ?thesis
    by (simp add: counts_exact_def)
qed

lemma counts_exact_foldl_remove:
  "counts_exact s \<Longrightarrow> counts_exact (foldl (\<lambda>s w. remove_socket w s) s ws)"
  by (induction ws arbitrary: s) (auto simp: counts_exact_remove_socket)

lemma counts_exact_run:
  "counts_exact s \<Longrightarrow> one_open_each sts s \<Longrightarrow> counts_exact (run sts s)"
proof (induction sts arbitrary: s)
  case Nil
  then show ?case by simp
next
  case (Cons st sts)
  have "counts_exact (apply_step st s) \<and> one_open_each sts (apply_step st s)"
  proof (cases st)
    case (Open w q)
    with Cons.prems show ?thesis
      by (auto simp: websocket_endpoint_open_def counts_exact_register)
  next
    case (Finally w e)
    with Cons.prems show ?thesis
      by (simp add: websocket_endpoint_finally_def counts_exact_remove_socket)
  next
    case (SendToAll sockets d transport)
    obtain ws where "snd (snd (send_to_all sockets d transport s)) = foldl (\<lambda>s w. remove_socket w s) s ws"
      using send_to_all_state by blast
    with SendToAll Cons.prems show ?thesis
      by (simp add: counts_exact_foldl_remove)
  next
    case (Store q d)
    with Cons.prems show ?thesis
      by (simp add: counts_exact_def subscribers_def snapshot_def)
  qed
  then show ?case
    using Cons.IH by simp
qed

section \<open>Properties\<close>

subsection \<open>Frames of wanted qualities\<close>

text \<open>
  Claim C1. In a capture cycle whose camera read succeeds, every quality whose demand
  count is positive in the state the cycle reads \<open>frames_needed\<close> from has, at the end
  of the cycle, the bytes of this cycle's frame encoded at that quality as its entry of
  \<open>frames\<close>; a broadcast thread for it has been started. The same holds when steps of
  handlers and broadcasters run between the reading of \<open>frames_needed\<close> and the stores
  of the cycle: for every sequence of steps from that state whose stores are those of this
  cycle, the entry is the encoding of this cycle's frame.
\<close>

theorem wanted_quality_cached_after_cycle:
  assumes "cam ob = Some frame" and "0 < counter_get (frames_needed s) q"
  shows "map_of (frames (fst (snd (image_updater_cycle imencode ob u s)))) q = Some (imencode frame q)
         \<and> frames_get (frames (fst (snd (image_updater_cycle imencode ob u s)))) q = imencode frame q
         \<and> StartThread q \<in> set (snd (snd (image_updater_cycle imencode ob u s)))
         \<and> (filter is_store sts = map (\<lambda>quality. Store quality (imencode frame quality)) (required_qualities s)
              \<longrightarrow> map_of (frames (run sts s)) q = Some (imencode frame q))"
proof -
  let ?qs = "required_qualities s"
  have q: "q \<in> set ?qs"
    using assms(2) by (rule required_qualities_positive)
  have state: "fst (snd (image_updater_cycle imencode ob u s)) = fst (process_qualities imencode frame ?qs s)"
    using assms(1) by (simp add: image_updater_cycle_def Let_def case_prod_beta)
  have "set (snd (process_qualities imencode frame ?qs s)) \<subseteq> set (snd (snd (image_updater_cycle imencode ob u s)))"
    using assms(1) by (simp add: image_updater_cycle_def Let_def case_prod_beta)
  moreover have "StartThread q \<in> set (snd (process_qualities imencode frame ?qs s))"
    using q by (auto simp: process_qualities_effects)
  ultimately have "StartThread q \<in> set (snd (snd (image_updater_cycle imencode ob u s)))"
    by blast
  moreover have "map_of (frames (run sts s)) q = Some (imencode frame q)"
    if "filter is_store sts = map (\<lambda>quality. Store quality (imencode frame quality)) ?qs"
    using frames_run_stores [OF that, of s q] q by simp
  ultimately show ?thesis
    using q by (simp add: state process_qualities_frames frames_get_def)
qed

text \<open>
  A cycle with a count of 1 at quality 50 and a stale entry \<open>[9]\<close> in the cache, alone and
  with a handler opening and another closing around its store.
\<close>

theorem wanted_quality_cached_after_cycle_witness:
  "cam \<lparr>cam = Some (5 :: 8 word), read_time = 0, encode_time = 0\<rparr> = Some 5
   \<and> 0 < counter_get (frames_needed
        \<lparr>active_sockets = [(11::nat, 50)], frames_needed = [(50, 1), (70, 0)], frames = [(50, [9])]\<rparr>) 50
   \<and> map_of (frames (fst (snd (image_updater_cycle (\<lambda>frame quality. [frame, word_of_int quality])
        \<lparr>cam = Some 5, read_time = 0, encode_time = 0\<rparr> \<lparr>last_time = 0, now = 0\<rparr>
        \<lparr>active_sockets = [(11::nat, 50)], frames_needed = [(50, 1), (70, 0)], frames = [(50, [9])]\<rparr>)))) 50
      = Some [5, 50]
   \<and> map_of (frames (run [Open 12 70, Store 50 [5, 50], Finally 11 WebSocketDisconnect]
        \<lparr>active_sockets = [(11::nat, 50)], frames_needed = [(50, 1), (70, 0)], frames = [(50, [9])]\<rparr>)) 50
      = Some [5, 50]"
proof -
  let ?enc = "\<lambda>(frame :: 8 word) quality. [frame, word_of_int quality :: 8 word]"
  let ?ob = "\<lparr>cam = Some (5 :: 8 word), read_time = 0, encode_time = 0\<rparr>"
  let ?s = "\<lparr>active_sockets = [(11::nat, 50)], frames_needed = [(50, 1), (70, 0)], frames = [(50, [9])]\<rparr>"
  let ?sts = "[Open 12 70, Store 50 [5, 50], Finally (11::nat) WebSocketDisconnect]"
  have read: "cam ?ob = Some 5"
    by simp
  have wanted: "0 < counter_get (frames_needed ?s) 50"
    by (simp add: counter_get_def)
  have stores: "filter is_store ?sts = map (\<lambda>quality. Store quality (?enc 5 quality)) (required_qualities ?s)"
    by (simp add: is_store_def required_qualities_def)
  note cycle = wanted_quality_cached_after_cycle [OF read wanted, of ?enc "\<lparr>last_time = 0, now = 0\<rparr>" ?sts]
  have "map_of (frames (fst (snd (image_updater_cycle ?enc ?ob \<lparr>last_time = 0, now = 0\<rparr> ?s)))) 50
      = Some (?enc 5 50)"
    using cycle by (rule conjunct1)
  moreover have "map_of (frames (run ?sts ?s)) 50 = Some (?enc 5 50)"
    using cycle stores by blast
  ultimately show ?thesis
    using wanted by simp
qed

subsection \<open>One failed send\<close>




subsection \<open>Validation of the quality\<close>

text \<open>
  Claim C3, as the code has it. A handler called with a quality below 30 or above 95
  closes the connection with code 1003, the unsupported-data code of the protocol, and
  reason \<open>Invalid quality parameter\<close>, does not go on, and leaves the state as it was:
  no entry in \<open>active_sockets\<close>, no count incremented. With a quality from 30 to 95, both
  included, it accepts the connection, maps it to the quality and increments the count of
  that quality.
\<close>

theorem quality_validation:
  "(quality < 30 \<or> quality > 95 \<longrightarrow>
      websocket_endpoint_open websocket quality s =
        ([Close websocket 1003 ''Invalid quality parameter''], False, s))
   \<and> (30 \<le> quality \<and> quality \<le> 95 \<longrightarrow>
      websocket_endpoint_open websocket quality s =
        ([Accept websocket], True, register_socket websocket quality s)
      \<and> map_of (active_sockets (register_socket websocket quality s)) websocket = Some quality
      \<and> counter_get (frames_needed (register_socket websocket quality s)) quality =
          counter_get (frames_needed s) quality + 1)"
proof (rule conjI)
  show "quality < 30 \<or> quality > 95 \<longrightarrow>
      websocket_endpoint_open websocket quality s =
        ([Close websocket 1003 ''Invalid quality parameter''], False, s)"
    by (simp add: websocket_endpoint_open_def)
next
  have registered: "map_of (active_sockets (register_socket websocket quality s)) websocket = Some quality"
    by (simp add: register_socket_def update_conv')
  have counted: "counter_get (frames_needed (register_socket websocket quality s)) quality =
      counter_get (frames_needed s) quality + 1"
    by (simp add: register_socket_def counter_get_update)
  show "30 \<le> quality \<and> quality \<le> 95 \<longrightarrow>
      websocket_endpoint_open websocket quality s =
        ([Accept websocket], True, register_socket websocket quality s)
      \<and> map_of (active_sockets (register_socket websocket quality s)) websocket = Some quality
      \<and> counter_get (frames_needed (register_socket websocket quality s)) quality =
          counter_get (frames_needed s) quality + 1"
    using registered counted by (simp add: websocket_endpoint_open_def)
qed

text \<open>The qualities 29, 96, 30 and 95 on the empty state.\<close>

theorem quality_validation_witness:
  "websocket_endpoint_open (11::nat) 29 init_state =
     ([Close 11 1003 ''Invalid quality parameter''], False, init_state)
   \<and> websocket_endpoint_open (11::nat) 96 init_state =
     ([Close 11 1003 ''Invalid quality parameter''], False, init_state)
   \<and> websocket_endpoint_open (11::nat) 30 init_state =
     ([Accept 11], True, \<lparr>active_sockets = [(11, 30)], frames_needed = [(30, 1)], frames = []\<rparr>)
   \<and> websocket_endpoint_open (11::nat) 95 init_state =
     ([Accept 11], True, \<lparr>active_sockets = [(11, 95)], frames_needed = [(95, 1)], frames = []\<rparr>)"
proof -
  have reg: "register_socket (11::nat) q init_state =
      \<lparr>active_sockets = [(11, q)], frames_needed = [(q, 1)], frames = []\<rparr>" for q
    by (simp add: register_socket_def init_state_def counter_get_def)
  show ?thesis
    using quality_validation [of 29 "11::nat" init_state] quality_validation [of 96 "11::nat" init_state]
      quality_validation [of 30 "11::nat" init_state] quality_validation [of 95 "11::nat" init_state]
    by (simp add: reg)
qed

text \<open>
  The claim as the specification words it, a close with a policy-violation code, does not
  hold: for the qualities 29 and 96 the one close code sent is 1003, and 1008 is not sent.
\<close>

theorem invalid_quality_not_closed_with_policy_violation:
  "close_codes (fst (websocket_endpoint_open (11::nat) 29 init_state)) = [WS_1003_UNSUPPORTED_DATA]
   \<and> close_codes (fst (websocket_endpoint_open (11::nat) 96 init_state)) = [WS_1003_UNSUPPORTED_DATA]
   \<and> WS_1008_POLICY_VIOLATION \<notin> set (close_codes (fst (websocket_endpoint_open (11::nat) 29 init_state)))
   \<and> WS_1008_POLICY_VIOLATION \<notin> set (close_codes (fst (websocket_endpoint_open (11::nat) 96 init_state)))"
  by (simp add: websocket_endpoint_open_def close_codes_def WS_1003_UNSUPPORTED_DATA_def
      WS_1008_POLICY_VIOLATION_def)

subsection \<open>Registering and removing\<close>

text \<open>
  Claim C4. From any state whose count at \<open>quality\<close> is not negative, and so from any
  state that a run reaches from the empty one, a handler that registers connection \<open>c\<close> at
  a valid \<open>quality\<close> and then runs its \<open>finally\<close> block leaves the count of \<open>quality\<close>
  as it was before. Removing a connection twice is the same as removing it once, whichever
  path comes second: the \<open>finally\<close> block after the \<open>finally\<close> block, the removal loop
  of a broadcast after the \<open>finally\<close> block (it ends without an exception and changes
  nothing), and the \<open>finally\<close> block after the removal loop of a broadcast in which the
  send to \<open>c\<close> failed.
\<close>

theorem subscribe_unsubscribe_restores_and_unsubscribe_repeats:
  "(30 \<le> quality \<and> quality \<le> 95 \<and> 0 \<le> counter_get (frames_needed s) quality \<longrightarrow>
      counter_get (frames_needed (run [Open c quality, Finally c raised] s)) quality =
        counter_get (frames_needed s) quality)
   \<and> (30 \<le> quality \<and> quality \<le> 95 \<longrightarrow>
      counter_get (frames_needed (run (sts @ [Open c quality, Finally c raised]) init_state)) quality =
        counter_get (frames_needed (run sts init_state)) quality)
   \<and> run [Finally c raised, Finally c raised'] s = run [Finally c raised] s
   \<and> ((\<forall>w\<in>set sockets. w \<noteq> c \<longrightarrow> safe_send (transport w) = Inr True)
        \<and> (\<exists>b. safe_send (transport c) = Inr b) \<longrightarrow>
      send_to_all sockets frame_data transport (run [Finally c raised] s) =
        (map (\<lambda>ws. SendBytes ws frame_data) sockets, None, run [Finally c raised] s))
   \<and> (c \<in> set sockets \<and> safe_send (transport c) = Inr False
        \<and> (\<forall>w\<in>set sockets. \<exists>b. safe_send (transport w) = Inr b) \<longrightarrow>
      run [SendToAll sockets frame_data transport, Finally c raised] s =
        run [SendToAll sockets frame_data transport] s)"
proof -
  have twice: "run [Finally c raised, Finally c raised'] s = run [Finally c raised] s"
    by (simp add: websocket_endpoint_finally_def remove_socket_idem)
  have after_handler: "send_to_all sockets frame_data transport (run [Finally c raised] s) =
        (map (\<lambda>ws. SendBytes ws frame_data) sockets, None, run [Finally c raised] s)"
    if others: "\<forall>w\<in>set sockets. w \<noteq> c \<longrightarrow> safe_send (transport w) = Inr True"
      and own: "\<exists>b. safe_send (transport c) = Inr b"
  proof -
    have handled: "\<forall>w\<in>set sockets. \<exists>b. safe_send (transport w) = Inr b"
      using others own by auto
    have "\<forall>w\<in>set (filter (\<lambda>w. safe_send (transport w) = Inr False) sockets).
        map_of (active_sockets (remove_socket c s)) w = None"
      using others by (auto simp: active_sockets_remove_socket)
    then have "foldl (\<lambda>s w. remove_socket w s) (remove_socket c s)
        (filter (\<lambda>w. safe_send (transport w) = Inr False) sockets) = remove_socket c s"
      by (rule foldl_remove_absent)
    then show ?thesis
      by (simp add: send_to_all_handled [OF handled] websocket_endpoint_finally_def)
  qed
  have after_broadcast: "run [SendToAll sockets frame_data transport, Finally c raised] s =
        run [SendToAll sockets frame_data transport] s"
    if "c \<in> set sockets" "safe_send (transport c) = Inr False"
      and handled: "\<forall>w\<in>set sockets. \<exists>b. safe_send (transport w) = Inr b"
  proof -
    have "map_of (active_sockets (snd (snd (send_to_all sockets frame_data transport s)))) c = None"
      using that(1,2) by (simp add: send_to_all_handled [OF handled] active_sockets_foldl_remove)
    then show ?thesis
      by (simp add: websocket_endpoint_finally_def remove_socket_absent)
  qed
  from register_then_remove [of quality s c raised]
    register_then_remove_reachable [of quality sts c raised]
    twice after_handler after_broadcast
  show ?thesis
    by blast
qed

text \<open>Connection 12 is removed by one path and then by the other.\<close>

theorem subscribe_unsubscribe_witness:
  "counter_get (frames_needed (run [Open (11::nat) 50, Finally 11 WebSocketDisconnect]
      \<lparr>active_sockets = [(12, 50)], frames_needed = [(50, 1)], frames = []\<rparr>)) 50 = 1
   \<and> counter_get (frames_needed (run ([Open (12::nat) 50] @ [Open 11 50, Finally 11 WebSocketDisconnect])
      init_state)) 50 = 1
   \<and> run [Finally (12::nat) WebSocketDisconnect, Finally 12 RuntimeError]
        \<lparr>active_sockets = [(12, 50)], frames_needed = [(50, 1)], frames = []\<rparr>
      = \<lparr>active_sockets = [], frames_needed = [(50, 0)], frames = []\<rparr>
   \<and> send_to_all [12, 13] [7] (\<lambda>w. if w = 12 then Some RuntimeError else None)
        (run [Finally (12::nat) WebSocketDisconnect]
          \<lparr>active_sockets = [(12, 50), (13, 50)], frames_needed = [(50, 2)], frames = []\<rparr>)
      = ([SendBytes 12 [7], SendBytes 13 [7]], None,
         \<lparr>active_sockets = [(13, 50)], frames_needed = [(50, 1)], frames = []\<rparr>)
   \<and> run [SendToAll [12, 13] [7] (\<lambda>w. if w = 12 then Some RuntimeError else None),
           Finally (12::nat) WebSocketDisconnect]
        \<lparr>active_sockets = [(12, 50), (13, 50)], frames_needed = [(50, 2)], frames = []\<rparr>
      = \<lparr>active_sockets = [(13, 50)], frames_needed = [(50, 1)], frames = []\<rparr>"
proof -
  let ?tr = "\<lambda>w::nat. if w = 12 then Some RuntimeError else None"
  let ?s1 = "\<lparr>active_sockets = [(12::nat, 50)], frames_needed = [(50, 1)], frames = []\<rparr>"
  let ?s2 = "\<lparr>active_sockets = [(12::nat, 50), (13, 50)], frames_needed = [(50, 2)], frames = []\<rparr>"
  have once1: "run [Finally 12 WebSocketDisconnect] ?s1 =
      \<lparr>active_sockets = [], frames_needed = [(50, 0)], frames = []\<rparr>"
    by (simp add: websocket_endpoint_finally_def remove_socket_def counter_get_def)
  have once2: "run [Finally 12 WebSocketDisconnect] ?s2 =
      \<lparr>active_sockets = [(13, 50)], frames_needed = [(50, 1)], frames = []\<rparr>"
    by (simp add: websocket_endpoint_finally_def remove_socket_def counter_get_def)
  have sent: "run [SendToAll [12, 13] [7] ?tr] ?s2 =
      \<lparr>active_sockets = [(13, 50)], frames_needed = [(50, 1)], frames = []\<rparr>"
    by (simp add: send_to_all_def safe_send_def remove_socket_def counter_get_def)
  have valid: "30 \<le> (50::int) \<and> (50::int) \<le> 95 \<and> 0 \<le> counter_get (frames_needed ?s1) 50"
    by (simp add: counter_get_def)
  have others: "(\<forall>w\<in>set [12, 13]. w \<noteq> 12 \<longrightarrow> safe_send (?tr w) = Inr True)
      \<and> (\<exists>b. safe_send (?tr 12) = Inr b)"
    by (auto simp: safe_send_def)
  have failed: "(12::nat) \<in> set [12, 13] \<and> safe_send (?tr 12) = Inr False
      \<and> (\<forall>w\<in>set [12, 13]. \<exists>b. safe_send (?tr w) = Inr b)"
    by (auto simp: safe_send_def)
  have a: "counter_get (frames_needed (run [Open 11 50, Finally 11 WebSocketDisconnect] ?s1)) 50 =
      counter_get (frames_needed ?s1) 50"
    using subscribe_unsubscribe_restores_and_unsubscribe_repeats
      [where quality = 50 and s = ?s1 and c = 11 and raised = WebSocketDisconnect] valid
    by blast
  have a2: "counter_get (frames_needed (run ([Open (12::nat) 50] @ [Open 11 50, Finally 11 WebSocketDisconnect])
      init_state)) 50 = counter_get (frames_needed (run [Open (12::nat) 50] init_state)) 50"
    using subscribe_unsubscribe_restores_and_unsubscribe_repeats
      [where quality = 50 and sts = "[Open (12::nat) 50]" and c = 11 and raised = WebSocketDisconnect] valid
    by blast
  have opened: "counter_get (frames_needed (run [Open (12::nat) 50] init_state)) 50 = 1"
    by (simp add: websocket_endpoint_open_def register_socket_def init_state_def counter_get_def)
  have b: "run [Finally 12 WebSocketDisconnect, Finally 12 RuntimeError] ?s1 =
      run [Finally 12 WebSocketDisconnect] ?s1"
    using subscribe_unsubscribe_restores_and_unsubscribe_repeats
      [where s = ?s1 and c = 12 and raised = WebSocketDisconnect and raised' = RuntimeError]
    by blast
  have c: "send_to_all [12, 13] [7] ?tr (run [Finally 12 WebSocketDisconnect] ?s2) =
      (map (\<lambda>ws. SendBytes ws [7]) [12, 13], None, run [Finally 12 WebSocketDisconnect] ?s2)"
    using subscribe_unsubscribe_restores_and_unsubscribe_repeats
      [where s = ?s2 and c = 12 and raised = WebSocketDisconnect and sockets = "[12, 13]"
        and transport = ?tr and frame_data = "[7]"] others
    by blast
  have d: "run [SendToAll [12, 13] [7] ?tr, Finally 12 WebSocketDisconnect] ?s2 =
      run [SendToAll [12, 13] [7] ?tr] ?s2"
    using subscribe_unsubscribe_restores_and_unsubscribe_repeats
      [where s = ?s2 and c = 12 and raised = WebSocketDisconnect and sockets = "[12, 13]"
        and transport = ?tr and frame_data = "[7]"] failed
    by blast
  have before: "counter_get (frames_needed ?s1) 50 = 1"
    by (simp add: counter_get_def)
  have c': "send_to_all [12, 13] [7] ?tr (run [Finally 12 WebSocketDisconnect] ?s2) =
      ([SendBytes 12 [7], SendBytes 13 [7]], None,
       \<lparr>active_sockets = [(13, 50)], frames_needed = [(50, 1)], frames = []\<rparr>)"
    using c unfolding once2 by simp
  show ?thesis
    using a [unfolded before] a2 [unfolded opened] b [unfolded once1] c' d [unfolded sent]
    by (intro conjI)
qed

subsection \<open>A failed camera read\<close>

text \<open>
  Claim C5, as the code has it. In a capture cycle whose camera read fails nothing is
  encoded, \<open>frames\<close> and the rest of the state stay as they were, no broadcast thread is
  started, and the loop goes on with the next cycle. The cycle ends at \<open>continue\<close>: it
  does not sleep and leaves \<open>last_time\<close> alone, so the next read follows at once.
\<close>

theorem read_failure_skips_cycle:
  assumes "cam ob = None"
  shows "image_updater_cycle imencode ob u s = (u\<lparr>now := now u + read_time ob\<rparr>, s, [])
         \<and> image_updater imencode (ob # obs) u s =
             image_updater imencode obs (u\<lparr>now := now u + read_time ob\<rparr>) s"
  using assms by (simp add: image_updater_cycle_def Let_def)

text \<open>A failed read that took a hundredth of a second.\<close>

theorem read_failure_skips_cycle_witness:
  "cam \<lparr>cam = (None :: nat option), read_time = 1 / 100, encode_time = 0\<rparr> = None
   \<and> image_updater_cycle (\<lambda>frame quality. [7])
        \<lparr>cam = (None :: nat option), read_time = 1 / 100, encode_time = 0\<rparr> \<lparr>last_time = 3, now = 3\<rparr>
        \<lparr>active_sockets = [(11::nat, 50)], frames_needed = [(50, 1)], frames = [(50, [9])]\<rparr>
      = (\<lparr>last_time = 3, now = 3 + 1 / 100\<rparr>,
         \<lparr>active_sockets = [(11, 50)], frames_needed = [(50, 1)], frames = [(50, [9])]\<rparr>, [])"
proof -
  let ?ob = "\<lparr>cam = (None :: nat option), read_time = 1 / 100, encode_time = 0\<rparr>"
  have failed: "cam ?ob = None"
    by simp
  from read_failure_skips_cycle [OF failed, of "\<lambda>frame quality. [7]" "\<lparr>last_time = 3, now = 3\<rparr>"
      "\<lparr>active_sockets = [(11::nat, 50)], frames_needed = [(50, 1)], frames = [(50, [9])]\<rparr>" "[]"]
  show ?thesis
    by simp
qed

text \<open>
  The claim as the specification words it, that the failed cycle still goes through the
  pacing, does not hold: the failed cycle has no effect at all and keeps the deadline,
  while the pacing phase entered at the same moment sleeps for the interval and moves the
  deadline.
\<close>

theorem read_failure_is_not_paced:
  "image_updater_cycle (\<lambda>frame quality. [7])
       \<lparr>cam = (None :: nat option), read_time = 0, encode_time = 0\<rparr> \<lparr>last_time = 0, now = 0\<rparr>
       \<lparr>active_sockets = [(11::nat, 50)], frames_needed = [(50, 1)], frames = []\<rparr>
     = (\<lparr>last_time = 0, now = 0\<rparr>,
        \<lparr>active_sockets = [(11, 50)], frames_needed = [(50, 1)], frames = []\<rparr>, [])
   \<and> pace 0 \<lparr>last_time = 0, now = 0\<rparr> = (\<lparr>last_time = 1 / 34, now = 1 / 34\<rparr>, [Sleep (1 / 34)])"
  by (simp add: image_updater_cycle_def pace_def interval_def wait_until.simps Let_def)

subsection \<open>One payload for each broadcast\<close>

text \<open>
  Claim C6. A broadcast at a quality sends one and the same byte sequence, the entry
  \<open>frames.get(quality, b'')\<close> read once under the lock, to every connection of its
  snapshot, and to nobody else; the snapshot holds just the connections that
  \<open>active_sockets\<close> maps to the quality. This holds whatever the sends do.
\<close>

theorem broadcast_sends_one_snapshot:
  "fst (update_websockets_for_quality quality transport s) =
     map (\<lambda>ws. SendBytes ws (frames_get (frames s) quality)) (snd (snapshot quality s))
   \<and> (\<forall>ws\<in>set (snd (snapshot quality s)).
        SendBytes ws (frames_get (frames s) quality)
          \<in> set (fst (update_websockets_for_quality quality transport s)))
   \<and> (\<forall>ws data. SendBytes ws data \<in> set (fst (update_websockets_for_quality quality transport s))
        \<longrightarrow> data = frames_get (frames s) quality \<and> (ws, quality) \<in> set (active_sockets s))"
proof -
  have "fst (update_websockets_for_quality quality transport s) =
     map (\<lambda>ws. SendBytes ws (frames_get (frames s) quality)) (snd (snapshot quality s))"
    by (simp add: update_websockets_for_quality_def fst_send_to_all snapshot_def split: prod.splits)
  then show ?thesis
    by (auto simp: set_snapshot)
qed

text \<open>Two of three connections are at quality 50; both are sent \<open>[7, 8]\<close>.\<close>

theorem broadcast_sends_one_snapshot_witness:
  "fst (update_websockets_for_quality 50 (\<lambda>w. None)
      \<lparr>active_sockets = [(11::nat, 50), (12, 70), (13, 50)], frames_needed = [(50, 2), (70, 1)],
       frames = [(50, [7, 8]), (70, [9])]\<rparr>)
   = [SendBytes 11 [7, 8], SendBytes 13 [7, 8]]"
proof -
  let ?s = "\<lparr>active_sockets = [(11::nat, 50), (12, 70), (13, 50)], frames_needed = [(50, 2), (70, 1)],
       frames = [(50, [7, 8]), (70, [9])]\<rparr>"
  have "fst (update_websockets_for_quality 50 (\<lambda>w. None) ?s) =
      map (\<lambda>ws. SendBytes ws (frames_get (frames ?s) 50)) (snd (snapshot 50 ?s))"
    using broadcast_sends_one_snapshot [of 50 "\<lambda>w. None" ?s] by (rule conjunct1)
  then show ?thesis
    by (simp add: snapshot_def frames_get_def)
qed

subsection \<open>Failed connections\<close>

text \<open>
  Claim C7, as the code has it. In a broadcast where every send returns or raises one of
  the three exceptions that \<open>safe_send\<close> catches, the state left is the one obtained by
  removing, one after the other, each connection whose send failed: such a connection is
  no longer in \<open>active_sockets\<close>, and the removal of a connection that was still
  registered lowers the count of its quality by one, not below zero. The broadcaster's
  only transport actions are the sends: it closes no connection.
\<close>

theorem failed_sends_unsubscribed_without_close:
  assumes handled: "\<forall>w\<in>set sockets. \<exists>b. safe_send (transport w) = Inr b"
  shows "send_to_all sockets frame_data transport s =
           (map (\<lambda>ws. SendBytes ws frame_data) sockets, None,
            foldl (\<lambda>s w. remove_socket w s) s
              (filter (\<lambda>w. safe_send (transport w) = Inr False) sockets))
         \<and> (\<forall>c\<in>set sockets. safe_send (transport c) = Inr False \<longrightarrow>
              map_of (active_sockets (snd (snd (send_to_all sockets frame_data transport s)))) c = None)
         \<and> (\<forall>c q q'. map_of (active_sockets s) c = Some q \<longrightarrow>
              map_of (active_sockets (remove_socket c s)) c = None
              \<and> counter_get (frames_needed (remove_socket c s)) q' =
                  (if q' = q then max (counter_get (frames_needed s) q - 1) 0
                   else counter_get (frames_needed s) q'))
         \<and> closed_connections (fst (send_to_all sockets frame_data transport s)) = []"
  by (simp add: send_to_all_handled [OF handled] active_sockets_foldl_remove
      active_sockets_remove_socket remove_socket_registered closed_connections_sends)

text \<open>Three connections at quality 50; the sends to the first and the third fail.\<close>

theorem failed_sends_unsubscribed_witness:
  "send_to_all [11, 12, 13] [7] (\<lambda>w. if w = 12 then None else Some WebSocketDisconnect)
      \<lparr>active_sockets = [(11::nat, 50), (12, 50), (13, 50)], frames_needed = [(50, 3)], frames = []\<rparr>
   = ([SendBytes 11 [7], SendBytes 12 [7], SendBytes 13 [7]], None,
      \<lparr>active_sockets = [(12, 50)], frames_needed = [(50, 1)], frames = []\<rparr>)
   \<and> closed_connections [SendBytes (11::nat) [7], SendBytes 12 [7], SendBytes 13 [7]] = []"
proof -
  let ?tr = "\<lambda>w::nat. if w = 12 then None else Some WebSocketDisconnect"
  let ?s = "\<lparr>active_sockets = [(11::nat, 50), (12, 50), (13, 50)], frames_needed = [(50, 3)], frames = []\<rparr>"
  have handled: "\<forall>w\<in>set [11, 12, 13]. \<exists>b. safe_send (?tr w) = Inr b"
    by (auto simp: safe_send_def)
  have sent: "send_to_all [11, 12, 13] [7] ?tr ?s =
           (map (\<lambda>ws. SendBytes ws [7]) [11, 12, 13], None,
            foldl (\<lambda>s w. remove_socket w s) ?s
              (filter (\<lambda>w. safe_send (?tr w) = Inr False) [11, 12, 13]))"
    using failed_sends_unsubscribed_without_close [OF handled, of "[7]" ?s] by (rule conjunct1)
  have closed: "closed_connections (fst (send_to_all [11, 12, 13] [7] ?tr ?s)) = []"
    using failed_sends_unsubscribed_without_close [OF handled, of "[7]" ?s] by blast
  show ?thesis
    using closed unfolding sent by (simp add: safe_send_def remove_socket_def counter_get_def)
qed

text \<open>
  The claim as the specification words it, that the broadcaster also closes the transport
  of a failed connection, does not hold: the send to connection 11 fails, the connection
  is removed and its count decremented, and the only thing done to its transport is the
  send.
\<close>

theorem broadcast_does_not_close_failed_connection:
  "safe_send (Some ConnectionResetError) = Inr False
   \<and> update_websockets_for_quality 50 (\<lambda>ws. Some ConnectionResetError)
       \<lparr>active_sockets = [(11::nat, 50)], frames_needed = [(50, 1)], frames = [(50, [7])]\<rparr> =
     ([SendBytes 11 [7]], None,
      \<lparr>active_sockets = [], frames_needed = [(50, 0)], frames = [(50, [7])]\<rparr>)
   \<and> closed_connections [SendBytes (11::nat) [7]] = []"
  by (simp add: safe_send_def update_websockets_for_quality_def snapshot_def frames_get_def
      send_to_all_def remove_socket_def counter_get_def closed_connections_def)

subsection \<open>Pacing\<close>




subsection \<open>Counts are not negative\<close>

text \<open>
  Claim C9. After any sequence of handler openings, \<open>finally\<close> blocks, removal loops of
  broadcasts and frame stores, started from the empty state, every demand count is at
  least zero. A removal from any state, whatever the count was, leaves a count of at
  least zero.
\<close>

theorem demand_counts_never_negative:
  "0 \<le> counter_get (frames_needed (run sts init_state)) q
   \<and> (map_of (active_sockets s) w = Some q' \<longrightarrow>
        0 \<le> counter_get (frames_needed (remove_socket w s)) q')"
proof -
  have "counts_nonneg (init_state :: 'a state)"
    by (simp add: counts_nonneg_def init_state_def counter_get_def)
  then have "counts_nonneg (run sts (init_state :: 'a state))"
    by (rule counts_nonneg_run)
  then have "0 \<le> counter_get (frames_needed (run sts init_state)) q"
    by (simp add: counts_nonneg_def)
  then show ?thesis
    by (simp add: remove_socket_registered)
qed

text \<open>A run that removes connection 11 three times, and a removal at count 0.\<close>

theorem demand_counts_never_negative_witness:
  "0 \<le> counter_get (frames_needed (run
      [Open (11::nat) 50, Finally 11 WebSocketDisconnect,
       SendToAll [11] [7] (\<lambda>w. Some RuntimeError), Finally 11 RuntimeError] init_state)) 50
   \<and> map_of (active_sockets
        \<lparr>active_sockets = [(11::nat, 50)], frames_needed = [(50, 0)], frames = []\<rparr>) 11 = Some 50
   \<and> counter_get (frames_needed (remove_socket 11
        \<lparr>active_sockets = [(11::nat, 50)], frames_needed = [(50, 0)], frames = []\<rparr>)) 50 = 0"
proof -
  let ?s = "\<lparr>active_sockets = [(11::nat, 50)], frames_needed = [(50, 0)], frames = []\<rparr>"
  have registered: "map_of (active_sockets ?s) 11 = Some 50"
    by simp
  have clamped: "counter_get (frames_needed (remove_socket 11 ?s)) 50 = 0"
    by (simp add: remove_socket_def counter_get_def)
  have "0 \<le> counter_get (frames_needed (run
      [Open (11::nat) 50, Finally 11 WebSocketDisconnect,
       SendToAll [11] [7] (\<lambda>w. Some RuntimeError), Finally 11 RuntimeError] init_state)) 50"
    using demand_counts_never_negative [of _ 50 ?s 11 50] by (rule conjunct1)
  with registered clamped show ?thesis
    by (intro conjI)
qed

subsection \<open>Counts are exact\<close>

text \<open>
  Claim C10. In every state reached from the empty one by handler openings, \<open>finally\<close>
  blocks, removal loops and frame stores, where each handler opens with a connection that
  is not in \<open>active_sockets\<close>, the demand count of every quality is the number of
  connections mapped to it. So whenever a registered connection is removed the count is
  at least 1, and \<open>max\<close> with 0 gives the plain difference.
\<close>

theorem demand_count_is_number_of_subscribers:
  assumes "one_open_each sts init_state"
  shows "counter_get (frames_needed (run sts init_state)) q = int (subscribers (run sts init_state) q)
         \<and> (\<forall>w q'. map_of (active_sockets (run sts init_state)) w = Some q' \<longrightarrow>
               max (counter_get (frames_needed (run sts init_state)) q' - 1) 0 =
                 counter_get (frames_needed (run sts init_state)) q' - 1)"
proof -
  let ?s = "run sts (init_state :: 'a state)"
  have "counts_exact (init_state :: 'a state)"
    by (simp add: counts_exact_def init_state_def counter_get_def subscribers_def snapshot_def)
  then have exact: "counts_exact ?s"
    using assms by (rule counts_exact_run)
  have "1 \<le> counter_get (frames_needed ?s) q'" if "map_of (active_sockets ?s) w = Some q'" for w q'
  proof -
    from that have "(w, q') \<in> set (active_sockets ?s)"
      by (rule map_of_SomeD)
    then have "filter (\<lambda>p. snd p = q') (active_sockets ?s) \<noteq> []"
      by (force simp: filter_empty_conv)
    then have "1 \<le> subscribers ?s q'"
      by (simp add: subscribers_filter Suc_le_eq)
    with exact show ?thesis
      by (simp add: counts_exact_def)
  qed
  then have unclamped: "\<forall>w q'. map_of (active_sockets ?s) w = Some q' \<longrightarrow>
      max (counter_get (frames_needed ?s) q' - 1) 0 = counter_get (frames_needed ?s) q' - 1"
    by (fastforce simp: max_def)
  have "counter_get (frames_needed ?s) q = int (subscribers ?s q)"
    using exact by (simp add: counts_exact_def)
  with unclamped show ?thesis
    by blast
qed

text \<open>Four openings (one refused), a broadcast with a failed send, two closings.\<close>

theorem demand_count_is_number_of_subscribers_witness:
  "one_open_each
     [Open (11::nat) 50, Open 12 50, Open 13 70, Open 14 20,
      SendToAll [11, 12] [7] (\<lambda>w. if w = 11 then Some RuntimeError else None),
      Finally 11 WebSocketDisconnect, Finally 13 RuntimeError] init_state
   \<and> run
     [Open (11::nat) 50, Open 12 50, Open 13 70, Open 14 20,
      SendToAll [11, 12] [7] (\<lambda>w. if w = 11 then Some RuntimeError else None),
      Finally 11 WebSocketDisconnect, Finally 13 RuntimeError] init_state
     = \<lparr>active_sockets = [(12, 50)], frames_needed = [(50, 1), (70, 0)], frames = []\<rparr>
   \<and> counter_get [(50, 1), (70, 0)] 50 =
       int (subscribers \<lparr>active_sockets = [(12::nat, 50)], frames_needed = [(50, 1), (70, 0)], frames = []\<rparr> 50)"
proof -
  let ?sts = "[Open (11::nat) 50, Open 12 50, Open 13 70, Open 14 20,
      SendToAll [11, 12] [7] (\<lambda>w. if w = 11 then Some RuntimeError else None),
      Finally 11 WebSocketDisconnect, Finally 13 RuntimeError]"
  have discipline: "one_open_each ?sts init_state"
    by (simp add: init_state_def websocket_endpoint_open_def register_socket_def counter_get_def)
  have final: "run ?sts init_state =
      \<lparr>active_sockets = [(12, 50)], frames_needed = [(50, 1), (70, 0)], frames = []\<rparr>"
    by (simp add: init_state_def websocket_endpoint_open_def register_socket_def counter_get_def
        websocket_endpoint_finally_def send_to_all_def safe_send_def remove_socket_def)
  have "counter_get (frames_needed (run ?sts init_state)) 50 = int (subscribers (run ?sts init_state) 50)"
    using demand_count_is_number_of_subscribers [OF discipline, of 50] by (rule conjunct1)
  then have "counter_get [(50, 1), (70, 0)] 50 =
      int (subscribers \<lparr>active_sockets = [(12::nat, 50)], frames_needed = [(50, 1), (70, 0)], frames = []\<rparr> 50)"
    unfolding final by simp
  with discipline final show ?thesis
    by (intro conjI)
qed

end
